theory Spec2Isabelle
  imports Main "HOL-Library.Word"
begin

section \<open>The FundMe contract\<close>

text \<open>
  A shallow embedding of the Solidity contract \<open>FundMe\<close>: its storage, its constructor and
  its two state-changing functions \<open>fund\<close> and \<open>withdraw\<close>.

  \<^item> \<open>address\<close> is a 160-bit word and \<open>uint256\<close> a 256-bit word. Arithmetic of the contract
    is checked (Solidity 0.8): an overflow of \<open>+=\<close> aborts the call with a panic.
  \<^item> A Solidity \<open>mapping(address => uint256)\<close> is a total function: a key never written
    reads as 0.
  \<^item> The token behind \<open>usdcToken\<close> is an external contract. The ledger sees it through the
    three functions of \<open>IERC20\<close> it calls; each takes the state of the token contract and
    returns the new one, or \<open>None\<close> when the token itself aborts. The token does not call
    back into the ledger.
  \<^item> A function body runs on the state and ends either normally or in a \<open>revert\<close>. The
    outcome keeps the state reached at that point. The EVM then discards every state
    change of a reverted call: \<open>after_call\<close> is that step.
  \<^item> Gas is not modelled.
\<close>

type_synonym address = "160 word"
type_synonym uint256 = "256 word"

datatype error =
    FundMe__NotOwner
  | FundMe__NotEnoughFunds
  | FundMe__TransferFailed
  | TokenAborted
  | Panic_overflow

text \<open>
  The interface of the token as the ledger uses it. The first argument of the two
  transfers is the caller of the token (its \<open>msg.sender\<close>), here always the ledger.
\<close>

record 't IERC20 =
  transferFrom :: "address \<Rightarrow> address \<Rightarrow> address \<Rightarrow> uint256 \<Rightarrow> 't \<Rightarrow> (bool \<times> 't) option"
  transfer :: "address \<Rightarrow> address \<Rightarrow> uint256 \<Rightarrow> 't \<Rightarrow> (bool \<times> 't) option"
  balanceOf :: "address \<Rightarrow> 't \<Rightarrow> uint256 option"

text \<open>The immutables of a deployed ledger, and the address it is deployed at.\<close>

record 't FundMe =
  i_owner :: address
  usdcToken :: "'t IERC20"
  this :: address

text \<open>The external calls a function body issues, in order (a ghost field of the state).\<close>

datatype ext_call =
    CallTransferFrom address address uint256
  | CallBalanceOf address
  | CallTransfer address uint256

text \<open>
  The state a call runs on: the two storage variables of the ledger, the state of the
  token contract, and the external calls issued so far.
\<close>

record 't world =
  addressToAmountFunded :: "address \<Rightarrow> uint256"
  s_funders :: "address list"
  usdc :: 't
  calls :: "ext_call list"

datatype 't outcome =
    Success "'t world"
  | Revert error "'t world"

definition MINIMUM_USDC :: uint256 where
  "MINIMUM_USDC = 1 * 1000000"

definition constructor :: "address \<Rightarrow> address \<Rightarrow> 't IERC20 \<Rightarrow> 't FundMe" where
  "constructor sender self usdcAddress =
     \<lparr>i_owner = sender, usdcToken = usdcAddress, this = self\<rparr>"

text \<open>The storage of a freshly deployed ledger, beside a token in state \<open>t\<close>.\<close>

definition deployed :: "'t \<Rightarrow> 't world" where
  "deployed t = \<lparr>addressToAmountFunded = (\<lambda>_. 0), s_funders = [], usdc = t, calls = []\<rparr>"

text \<open>Checked addition of Solidity 0.8.\<close>

definition checked_add :: "uint256 \<Rightarrow> uint256 \<Rightarrow> uint256 option" where
  "checked_add a b = (if unat a + unat b < 2 ^ 256 then Some (a + b) else None)"

definition fund :: "'t FundMe \<Rightarrow> address \<Rightarrow> uint256 \<Rightarrow> 't world \<Rightarrow> 't outcome" where
  "fund c sender amount w =
    (if amount < MINIMUM_USDC then Revert FundMe__NotEnoughFunds w
     else
       let w1 = w\<lparr>calls := calls w @ [CallTransferFrom sender (this c) amount]\<rparr> in
       case transferFrom (usdcToken c) (this c) sender (this c) amount (usdc w1) of
         None \<Rightarrow> Revert TokenAborted w1
       | Some (success, t') \<Rightarrow>
           let w2 = w1\<lparr>usdc := t'\<rparr> in
           if \<not> success then Revert FundMe__TransferFailed w2
           else
             let w3 = (if addressToAmountFunded w2 sender = 0
                       then w2\<lparr>s_funders := s_funders w2 @ [sender]\<rparr>
                       else w2)
             in case checked_add (addressToAmountFunded w3 sender) amount of
                  None \<Rightarrow> Revert Panic_overflow w3
                | Some v \<Rightarrow>
                    Success (w3\<lparr>addressToAmountFunded :=
                                  (addressToAmountFunded w3)(sender := v)\<rparr>))"

text \<open>
  The loop of \<open>withdraw\<close>: \<open>for (funderIndex = 0; funderIndex < s_funders.length;
  funderIndex++)\<close>. The index never overflows, being below the length of the array.
\<close>

function reset_funders :: "nat \<Rightarrow> 't world \<Rightarrow> 't world" where
  "reset_funders funderIndex w =
     (if funderIndex < length (s_funders w)
      then reset_funders (funderIndex + 1)
             (w\<lparr>addressToAmountFunded :=
                  (addressToAmountFunded w)(s_funders w ! funderIndex := 0)\<rparr>)
      else w)"
  by pat_completeness auto
termination
  by (relation "measure (\<lambda>(i, w). length (s_funders w) - i)") auto

declare reset_funders.simps [simp del]

definition withdraw :: "'t FundMe \<Rightarrow> address \<Rightarrow> 't world \<Rightarrow> 't outcome" where
  "withdraw c sender w =
    (if sender \<noteq> i_owner c then Revert FundMe__NotOwner w
     else
       let w1 = reset_funders 0 w;
           w2 = w1\<lparr>s_funders := []\<rparr>;
           w3 = w2\<lparr>calls := calls w2 @ [CallBalanceOf (this c)]\<rparr>
       in case balanceOf (usdcToken c) (this c) (usdc w3) of
            None \<Rightarrow> Revert TokenAborted w3
          | Some balance \<Rightarrow>
              let w4 = w3\<lparr>calls := calls w3 @ [CallTransfer (i_owner c) balance]\<rparr> in
              case transfer (usdcToken c) (this c) (i_owner c) balance (usdc w4) of
                None \<Rightarrow> Revert TokenAborted w4
              | Some (success, t') \<Rightarrow>
                  let w5 = w4\<lparr>usdc := t'\<rparr> in
                  if \<not> success then Revert FundMe__TransferFailed w5
                  else Success w5)"

subsection \<open>Transactions\<close>

text \<open>
  What a call leaves behind: the state it reached when it succeeds, the state it started
  from when it reverts.
\<close>

fun after_call :: "'t world \<Rightarrow> 't outcome \<Rightarrow> 't world" where
  "after_call w (Success w') = w'"
| "after_call w (Revert e m) = w"

fun failure :: "'t outcome \<Rightarrow> error option" where
  "failure (Success w') = None"
| "failure (Revert e m) = Some e"

fun reached :: "'t outcome \<Rightarrow> 't world" where
  "reached (Success w') = w'"
| "reached (Revert e m) = m"

text \<open>
  A transaction is a call of \<open>fund\<close> or \<open>withdraw\<close> by some sender, or anything that
  happens to the token outside the ledger (approvals, mints, transfers between holders),
  which is a function on the state of the token.
\<close>

datatype 't tx =
    Fund address uint256
  | Withdraw address
  | TokenActivity "'t \<Rightarrow> 't"

fun step :: "'t FundMe \<Rightarrow> 't tx \<Rightarrow> 't world \<Rightarrow> 't world" where
  "step c (Fund sender amount) w = after_call w (fund c sender amount w)"
| "step c (Withdraw sender) w = after_call w (withdraw c sender w)"
| "step c (TokenActivity f) w = w\<lparr>usdc := f (usdc w)\<rparr>"

fun run :: "'t FundMe \<Rightarrow> 't tx list \<Rightarrow> 't world \<Rightarrow> 't world" where
  "run c [] w = w"
| "run c (x # xs) w = run c xs (step c x w)"

subsection \<open>The token service\<close>

text \<open>
  Modelled from the spec: the token contract (the mock token of the tests, USDC in
  production) is not among the sources. Section 6 of the specification describes it: a
  pull moves an amount from the payer to the recipient under an allowance the payer gave
  the caller, and fails when the allowance or the payer's balance is too small; a push
  moves an amount out of the caller's own balance; \<open>balanceOf\<close> reads a balance. The
  specification lets a failing transfer either return \<open>false\<close> or abort; this token
  returns \<open>false\<close>. (The mock token of the tests aborts with an error of its own, which
  \<open>fund\<close> then passes on.) Balances are \<open>uint256\<close> with checked arithmetic: a credit
  that would overflow aborts.
\<close>

record token_state =
  balances :: "address \<Rightarrow> uint256"
  allowances :: "address \<Rightarrow> address \<Rightarrow> uint256"

text \<open>
  Modelled from the spec: moving an amount debits the payer and credits the recipient.
\<close>

definition move ::
  "address \<Rightarrow> address \<Rightarrow> uint256 \<Rightarrow> 'a token_state_scheme \<Rightarrow> 'a token_state_scheme option" where
  "move payer recipient amount t =
     (let debited = (balances t)(payer := balances t payer - amount) in
      case checked_add (debited recipient) amount of
        None \<Rightarrow> None
      | Some v \<Rightarrow> Some (t\<lparr>balances := debited(recipient := v)\<rparr>))"

text \<open>
  Modelled from the spec: \<open>pullFrom(payer, recipient, amount)\<close>, called by \<open>spender\<close>.
\<close>

definition pullFrom ::
  "address \<Rightarrow> address \<Rightarrow> address \<Rightarrow> uint256 \<Rightarrow> 'a token_state_scheme \<Rightarrow>
   (bool \<times> 'a token_state_scheme) option" where
  "pullFrom spender payer recipient amount t =
     (if allowances t payer spender < amount \<or> balances t payer < amount then Some (False, t)
      else
        case move payer recipient amount
               (t\<lparr>allowances := (allowances t)
                    (payer := (allowances t payer)
                       (spender := allowances t payer spender - amount))\<rparr>) of
          None \<Rightarrow> None
        | Some t' \<Rightarrow> Some (True, t'))"

text \<open>Modelled from the spec: \<open>push(recipient, amount)\<close>, called by \<open>caller\<close>.\<close>

definition push ::
  "address \<Rightarrow> address \<Rightarrow> uint256 \<Rightarrow> 'a token_state_scheme \<Rightarrow>
   (bool \<times> 'a token_state_scheme) option" where
  "push caller recipient amount t =
     (if balances t caller < amount then Some (False, t)
      else
        case move caller recipient amount t of
          None \<Rightarrow> None
        | Some t' \<Rightarrow> Some (True, t'))"

text \<open>Modelled from the spec: the token service as the ledger's \<open>IERC20\<close>.\<close>

definition token_service :: "'a token_state_scheme IERC20" where
  "token_service =
     \<lparr>transferFrom = pullFrom, transfer = push, balanceOf = (\<lambda>holder t. Some (balances t holder))\<rparr>"

text \<open>
  The same token with a pause switch, as USDC has one: while it is paused, every pull and
  every push reports failure. It serves as a concrete token whose transfers can fail.
\<close>

record pausable_state = token_state +
  paused :: bool

definition pausable_service :: "pausable_state IERC20" where
  "pausable_service =
     \<lparr>transferFrom = (\<lambda>spender payer recipient amount t.
                        if paused t then Some (False, t)
                        else pullFrom spender payer recipient amount t),
      transfer = (\<lambda>caller recipient amount t.
                    if paused t then Some (False, t) else push caller recipient amount t),
      balanceOf = (\<lambda>holder t. Some (balances t holder))\<rparr>"

subsection \<open>Sequences of transactions\<close>

text \<open>\<open>sweeps\<close>: the transaction is a \<open>withdraw\<close> that succeeds in the state it runs on.\<close>

fun sweeps :: "'t FundMe \<Rightarrow> 't tx \<Rightarrow> 't world \<Rightarrow> bool" where
  "sweeps c (Withdraw sender) w = (failure (withdraw c sender w) = None)"
| "sweeps c (Fund sender amount) w = False"
| "sweeps c (TokenActivity f) w = False"

text \<open>\<open>deposits\<close>: the transaction is a \<open>fund\<close> of the identity \<open>d\<close> that succeeds.\<close>

fun deposits :: "'t FundMe \<Rightarrow> address \<Rightarrow> 't tx \<Rightarrow> 't world \<Rightarrow> bool" where
  "deposits c d (Fund sender amount) w = (sender = d \<and> failure (fund c sender amount w) = None)"
| "deposits c d (Withdraw sender) w = False"
| "deposits c d (TokenActivity f) w = False"

text \<open>No transaction of the sequence, run from \<open>w\<close>, is a successful \<open>withdraw\<close>.\<close>

fun no_sweep :: "'t FundMe \<Rightarrow> 't tx list \<Rightarrow> 't world \<Rightarrow> bool" where
  "no_sweep c [] w = True"
| "no_sweep c (x # xs) w = (\<not> sweeps c x w \<and> no_sweep c xs (step c x w))"

text \<open>
  No transaction of the sequence, run from \<open>w\<close>, is a successful \<open>withdraw\<close> or a
  successful \<open>fund\<close> of \<open>d\<close>.
\<close>

fun idle :: "'t FundMe \<Rightarrow> address \<Rightarrow> 't tx list \<Rightarrow> 't world \<Rightarrow> bool" where
  "idle c d [] w = True"
| "idle c d (x # xs) w =
     (\<not> sweeps c x w \<and> \<not> deposits c d x w \<and> idle c d xs (step c x w))"

subsection \<open>The invariant of the roster\<close>

text \<open>
  The roster holds no identity twice, and it holds exactly the identities whose recorded
  contribution is not zero.
\<close>

definition roster_inv :: "'t world \<Rightarrow> bool" where
  "roster_inv w =
     (distinct (s_funders w) \<and>
      (\<forall>x. (x \<in> set (s_funders w)) = (addressToAmountFunded w x \<noteq> 0)))"

subsection \<open>Concrete ledgers\<close>

definition owner0 :: address where
  "owner0 = 0x0D"

definition ledger0 :: address where
  "ledger0 = 0x1E"

definition alice :: address where
  "alice = 0xA1"

definition bob :: address where
  "bob = 0xB0"

text \<open>A ledger deployed by \<open>owner0\<close> at \<open>ledger0\<close>, bound to the pausable token.\<close>

definition ledger_pausable :: "pausable_state FundMe" where
  "ledger_pausable = constructor owner0 ledger0 pausable_service"

text \<open>The same, bound to the plain token.\<close>

definition ledger_plain :: "token_state FundMe" where
  "ledger_plain = constructor owner0 ledger0 token_service"

text \<open>
  A token in which alice and bob hold 1000 USDC each and have approved the ledger for
  that much, and a token in which nobody holds or has approved anything.
\<close>

definition approved_tokens :: pausable_state where
  "approved_tokens =
     \<lparr>balances = (\<lambda>_. 0)(alice := 1000000000, bob := 1000000000),
      allowances = (\<lambda>_ _. 0)(alice := (\<lambda>_. 0)(ledger0 := 1000000000),
                               bob := (\<lambda>_. 0)(ledger0 := 1000000000)),
      paused = False\<rparr>"

definition no_tokens :: pausable_state where
  "no_tokens = \<lparr>balances = (\<lambda>_. 0), allowances = (\<lambda>_ _. 0), paused = False\<rparr>"

text \<open>Pausing the token: something that happens to the token outside the ledger.\<close>

definition pause :: "pausable_state \<Rightarrow> pausable_state" where
  "pause t = t\<lparr>paused := True\<rparr>"

text \<open>
  The same holdings and approvals in the plain token: alice and bob hold 1000 USDC each
  and have approved the ledger for that much.
\<close>

definition approved_plain :: token_state where
  "approved_plain =
     \<lparr>balances = (\<lambda>_. 0)(alice := 1000000000, bob := 1000000000),
      allowances = (\<lambda>_ _. 0)(alice := (\<lambda>_. 0)(ledger0 := 1000000000),
                               bob := (\<lambda>_. 0)(ledger0 := 1000000000))\<rparr>"

section \<open>Properties\<close>

subsection \<open>What the two functions do\<close>

lemmas example_defs =
  owner0_def ledger0_def alice_def bob_def ledger_pausable_def approved_tokens_def
  constructor_def deployed_def token_service_def pausable_service_def pullFrom_def push_def
  move_def checked_add_def MINIMUM_USDC_def

lemma succeeded: "failure r = None \<Longrightarrow> r = Success (reached r)"
  by (cases r) simp_all

lemma after_call_cases: "after_call w r = w \<or> r = Success (after_call w r)"
  by (cases r) simp_all

lemma reset_funders_eq:
  "reset_funders i w =
     w\<lparr>addressToAmountFunded :=
         (\<lambda>x. if x \<in> set (drop i (s_funders w)) then 0 else addressToAmountFunded w x)\<rparr>"
proof (induction i w rule: reset_funders.induct)
  case (1 i w)
  show ?case
  proof (cases "i < length (s_funders w)")
    case True
    then have d: "drop i (s_funders w) = s_funders w ! i # drop (Suc i) (s_funders w)"
      by (simp add: Cons_nth_drop_Suc)
    show ?thesis
      using True 1 by (subst reset_funders.simps) (auto simp: d fun_eq_iff)
  next
    case False
    then show ?thesis
      by (subst reset_funders.simps) simp
  qed
qed

lemma checked_add_Some:
  "checked_add a b = Some v \<Longrightarrow> v = a + b \<and> unat v = unat a + unat b"
  by (auto simp: checked_add_def unat_word_ariths split: if_splits)

lemma not_below_minimum: "\<not> amount < MINIMUM_USDC \<Longrightarrow> amount \<noteq> 0"
  by (auto simp: MINIMUM_USDC_def)

lemma fund_Success:
  assumes "fund c sender amount w = Success w'"
  shows "\<not> amount < MINIMUM_USDC"
    and "s_funders w' =
          (if addressToAmountFunded w sender = 0 then s_funders w @ [sender] else s_funders w)"
    and "addressToAmountFunded w' =
          (addressToAmountFunded w)(sender := addressToAmountFunded w sender + amount)"
    and "unat (addressToAmountFunded w sender) + unat amount < 2 ^ 256"
    and "transferFrom (usdcToken c) (this c) sender (this c) amount (usdc w) =
          Some (True, usdc w')"
    and "calls w' = calls w @ [CallTransferFrom sender (this c) amount]"
  using assms
  by (auto simp: fund_def Let_def checked_add_def split: if_splits option.splits prod.splits)

lemma withdraw_Success:
  assumes "withdraw c sender w = Success w'"
  shows "sender = i_owner c"
    and "s_funders w' = []"
    and "addressToAmountFunded w' =
          (\<lambda>x. if x \<in> set (s_funders w) then 0 else addressToAmountFunded w x)"
    and "\<exists>b. balanceOf (usdcToken c) (this c) (usdc w) = Some b \<and>
             transfer (usdcToken c) (this c) (i_owner c) b (usdc w) = Some (True, usdc w')"
  using assms
  by (auto simp: withdraw_def Let_def reset_funders_eq
           split: if_splits option.splits prod.splits)

lemma fund_pull_abort:
  assumes "MINIMUM_USDC \<le> amount"
    and "transferFrom (usdcToken c) (this c) sender (this c) amount (usdc w) = None"
  shows "failure (fund c sender amount w) = Some TokenAborted"
    and "after_call w (fund c sender amount w) = w"
  using assms by (simp_all add: fund_def Let_def not_less [symmetric])

lemma fund_adds_nonzero:
  assumes "fund c sender amount w = Success w'"
  shows "addressToAmountFunded w sender + amount \<noteq> 0"
    and "unat (addressToAmountFunded w sender + amount) =
         unat (addressToAmountFunded w sender) + unat amount"
proof -
  note f = fund_Success [OF assms]
  show s: "unat (addressToAmountFunded w sender + amount) =
           unat (addressToAmountFunded w sender) + unat amount"
    using f(4) by (simp add: unat_word_ariths)
  have "0 < unat amount"
    using not_below_minimum [OF f(1)] by (simp add: unat_gt_0)
  then have "unat (addressToAmountFunded w sender + amount) \<noteq> 0"
    using s by simp
  then show "addressToAmountFunded w sender + amount \<noteq> 0"
    by auto
qed

subsection \<open>The invariant holds in every reachable state\<close>

lemma roster_inv_deployed: "roster_inv (deployed t)"
  by (simp add: roster_inv_def deployed_def)

lemma roster_inv_fund:
  assumes "roster_inv w" and "fund c sender amount w = Success w'"
  shows "roster_inv w'"
proof -
  note f = fund_Success [OF assms(2)]
  note nz = fund_adds_nonzero(1) [OF assms(2)]
  have d: "distinct (s_funders w)"
    and m: "\<And>x. (x \<in> set (s_funders w)) = (addressToAmountFunded w x \<noteq> 0)"
    using assms(1) by (simp_all add: roster_inv_def)
  have "distinct (s_funders w')"
    using d m [of sender] by (simp add: f(2))
  moreover have "(x \<in> set (s_funders w')) = (addressToAmountFunded w' x \<noteq> 0)" for x
  proof (cases "x = sender")
    case True
    then show ?thesis using nz m [of sender] by (simp add: f(2) f(3))
  next
    case False
    then show ?thesis using m [of x] by (simp add: f(2) f(3))
  qed
  ultimately show ?thesis by (simp add: roster_inv_def)
qed

lemma roster_inv_withdraw:
  assumes "roster_inv w" and "withdraw c sender w = Success w'"
  shows "roster_inv w'"
  using assms(1) withdraw_Success(2,3) [OF assms(2)]
  by (auto simp: roster_inv_def)

lemma roster_inv_step: "roster_inv w \<Longrightarrow> roster_inv (step c x w)"
proof (cases x)
  case (Fund sender amount)
  assume "roster_inv w"
  then show ?thesis
    using roster_inv_fund [of w c sender amount]
      after_call_cases [of w "fund c sender amount w"]
    by (auto simp: Fund)
next
  case (Withdraw sender)
  assume "roster_inv w"
  then show ?thesis
    using roster_inv_withdraw [of w c sender]
      after_call_cases [of w "withdraw c sender w"]
    by (auto simp: Withdraw)
next
  case (TokenActivity f)
  assume "roster_inv w"
  then show ?thesis by (simp add: TokenActivity roster_inv_def)
qed

lemma roster_inv_run: "roster_inv w \<Longrightarrow> roster_inv (run c xs w)"
  by (induction xs arbitrary: w) (simp_all add: roster_inv_step)

lemma roster_inv_reachable: "roster_inv (run c xs (deployed t))"
  by (rule roster_inv_run [OF roster_inv_deployed])

subsection \<open>Transactions that leave an identity alone\<close>

lemma not_sweeps_withdraw:
  "\<not> sweeps c (Withdraw sender) w \<Longrightarrow> after_call w (withdraw c sender w) = w"
  by (cases "withdraw c sender w") simp_all

lemma member_step:
  assumes "d \<in> set (s_funders w)" and "\<not> sweeps c x w"
  shows "d \<in> set (s_funders (step c x w))"
proof (cases x)
  case (Fund sender amount)
  show ?thesis
  proof (cases "fund c sender amount w")
    case (Success w')
    then show ?thesis
      using assms(1) fund_Success(2) [OF Success] by (simp add: Fund)
  next
    case (Revert e m)
    then show ?thesis using assms(1) by (simp add: Fund)
  qed
next
  case (Withdraw sender)
  then show ?thesis
    using assms not_sweeps_withdraw [of c sender w] by simp
next
  case (TokenActivity f)
  then show ?thesis using assms(1) by simp
qed

lemma member_run:
  "d \<in> set (s_funders w) \<Longrightarrow> no_sweep c xs w \<Longrightarrow> d \<in> set (s_funders (run c xs w))"
  by (induction xs arbitrary: w) (simp_all add: member_step)

lemma idle_step:
  assumes "\<not> sweeps c x w" and "\<not> deposits c d x w"
  shows "addressToAmountFunded (step c x w) d = addressToAmountFunded w d"
    and "count_list (s_funders (step c x w)) d = count_list (s_funders w) d"
proof -
  have "addressToAmountFunded (step c x w) d = addressToAmountFunded w d \<and>
        count_list (s_funders (step c x w)) d = count_list (s_funders w) d"
  proof (cases x)
    case (Fund sender amount)
    show ?thesis
    proof (cases "fund c sender amount w")
      case (Success w')
      then have "sender \<noteq> d"
        using assms(2) by (auto simp: Fund)
      then show ?thesis
        using fund_Success(2,3) [OF Success] by (simp add: Fund Success)
    next
      case (Revert e m)
      then show ?thesis by (simp add: Fund)
    qed
  next
    case (Withdraw sender)
    then show ?thesis
      using assms(1) not_sweeps_withdraw [of c sender w] by simp
  next
    case (TokenActivity f)
    then show ?thesis by simp
  qed
  then show "addressToAmountFunded (step c x w) d = addressToAmountFunded w d"
    and "count_list (s_funders (step c x w)) d = count_list (s_funders w) d"
    by simp_all
qed

lemma idle_run:
  "idle c d xs w \<Longrightarrow>
   addressToAmountFunded (run c xs w) d = addressToAmountFunded w d \<and>
   count_list (s_funders (run c xs w)) d = count_list (s_funders w) d"
  by (induction xs arbitrary: w) (simp_all add: idle_step)

subsection \<open>What a successful \<open>withdraw\<close> does to the plain token\<close>

lemma push_True:
  assumes "push caller recipient amount t = Some (True, t')" and "recipient \<noteq> caller"
  shows "balances t' caller = balances t caller - amount"
    and "unat (balances t' recipient) = unat (balances t recipient) + unat amount"
  using assms
  by (auto simp: push_def move_def Let_def checked_add_def unat_word_ariths
           split: if_splits option.splits)

lemma withdraw_token_effect:
  assumes "usdcToken c = token_service" and "i_owner c \<noteq> this c"
    and "withdraw c sender w = Success w'"
  shows "balances (usdc w') (this c) = 0"
    and "unat (balances (usdc w') (i_owner c)) =
         unat (balances (usdc w) (i_owner c)) + unat (balances (usdc w) (this c))"
proof -
  obtain b where b: "balanceOf (usdcToken c) (this c) (usdc w) = Some b"
    and t: "transfer (usdcToken c) (this c) (i_owner c) b (usdc w) = Some (True, usdc w')"
    using withdraw_Success(4) [OF assms(3)] by blast
  have b': "b = balances (usdc w) (this c)"
    using b by (simp add: assms(1) token_service_def)
  have p: "push (this c) (i_owner c) b (usdc w) = Some (True, usdc w')"
    using t by (simp add: assms(1) token_service_def)
  show "balances (usdc w') (this c) = 0"
    using push_True(1) [OF p assms(2)] by (simp add: b')
  show "unat (balances (usdc w') (i_owner c)) =
        unat (balances (usdc w) (i_owner c)) + unat (balances (usdc w) (this c))"
    using push_True(2) [OF p assms(2)] by (simp add: b')
qed

section \<open>The claims\<close>

subsection \<open>Guards of \<open>fund\<close>\<close>

text \<open>
  C4. For every caller and every amount strictly below the minimum, \<open>fund\<close> fails with
  \<open>FundMe__NotEnoughFunds\<close>; the contribution mapping and the roster are unchanged; and
  no call to the token is made: the revert is reached in the untouched initial state,
  whose list of external calls is the one the call started with.
\<close>

theorem fund_below_minimum:
  assumes "amount < MINIMUM_USDC"
  shows "failure (fund c sender amount w) = Some FundMe__NotEnoughFunds \<and>
         addressToAmountFunded (after_call w (fund c sender amount w)) =
           addressToAmountFunded w \<and>
         s_funders (after_call w (fund c sender amount w)) = s_funders w \<and>
         reached (fund c sender amount w) = w \<and>
         calls (reached (fund c sender amount w)) = calls w"
  using assms by (simp add: fund_def)

theorem fund_below_minimum_witness:
  "(999999 :: uint256) < MINIMUM_USDC \<and>
   failure (fund ledger_pausable alice 999999 (deployed approved_tokens)) =
     Some FundMe__NotEnoughFunds \<and>
   s_funders (after_call (deployed approved_tokens)
                (fund ledger_pausable alice 999999 (deployed approved_tokens))) = [] \<and>
   calls (reached (fund ledger_pausable alice 999999 (deployed approved_tokens))) = []"
  using fund_below_minimum [of 999999 ledger_pausable alice "deployed approved_tokens"]
  by (simp add: MINIMUM_USDC_def deployed_def)

text \<open>
  C5. For every caller and every amount of at least the minimum, if \<open>transferFrom\<close> of the
  token reports failure (returns \<open>false\<close>), \<open>fund\<close> fails with \<open>FundMe__TransferFailed\<close>
  and the state after the call is the state before it; already at the point of the
  revert the contribution mapping and the roster are untouched.
\<close>

theorem fund_pull_failure:
  assumes "MINIMUM_USDC \<le> amount"
    and "transferFrom (usdcToken c) (this c) sender (this c) amount (usdc w) = Some (False, t')"
  shows "failure (fund c sender amount w) = Some FundMe__TransferFailed \<and>
         after_call w (fund c sender amount w) = w \<and>
         addressToAmountFunded (reached (fund c sender amount w)) = addressToAmountFunded w \<and>
         s_funders (reached (fund c sender amount w)) = s_funders w"
  using assms by (simp add: fund_def Let_def not_less [symmetric])

theorem fund_pull_failure_witness:
  "MINIMUM_USDC \<le> 5000000 \<and>
   transferFrom (usdcToken ledger_pausable) (this ledger_pausable) alice (this ledger_pausable)
     5000000 (usdc (deployed no_tokens)) = Some (False, no_tokens) \<and>
   failure (fund ledger_pausable alice 5000000 (deployed no_tokens)) =
     Some FundMe__TransferFailed \<and>
   after_call (deployed no_tokens) (fund ledger_pausable alice 5000000 (deployed no_tokens)) =
     deployed no_tokens"
proof -
  have a: "MINIMUM_USDC \<le> 5000000"
    by (simp add: MINIMUM_USDC_def)
  have b: "transferFrom (usdcToken ledger_pausable) (this ledger_pausable) alice
             (this ledger_pausable) 5000000 (usdc (deployed no_tokens)) = Some (False, no_tokens)"
    by (simp add: no_tokens_def example_defs)
  show ?thesis
    using a b fund_pull_failure [OF a b] by simp
qed

subsection \<open>The owner gate of \<open>withdraw\<close>\<close>

text \<open>
  C6. For every caller other than the owner fixed at construction, \<open>withdraw\<close> fails with
  \<open>FundMe__NotOwner\<close> and the whole state (contribution mapping, roster, state of the
  token) is unchanged; the revert is reached before anything is touched.
\<close>

theorem withdraw_not_owner:
  assumes "sender \<noteq> i_owner (constructor deployer self token)"
  shows "failure (withdraw (constructor deployer self token) sender w) = Some FundMe__NotOwner \<and>
         after_call w (withdraw (constructor deployer self token) sender w) = w \<and>
         reached (withdraw (constructor deployer self token) sender w) = w"
  using assms by (simp add: withdraw_def)

theorem withdraw_not_owner_witness:
  "alice \<noteq> i_owner (constructor owner0 ledger0 pausable_service) \<and>
   failure (withdraw (constructor owner0 ledger0 pausable_service) alice
              (run ledger_pausable [Fund alice 5000000] (deployed approved_tokens))) =
     Some FundMe__NotOwner \<and>
   after_call (run ledger_pausable [Fund alice 5000000] (deployed approved_tokens))
     (withdraw (constructor owner0 ledger0 pausable_service) alice
        (run ledger_pausable [Fund alice 5000000] (deployed approved_tokens))) =
     run ledger_pausable [Fund alice 5000000] (deployed approved_tokens)"
proof -
  have a: "alice \<noteq> i_owner (constructor owner0 ledger0 pausable_service)"
    by (simp add: constructor_def alice_def owner0_def)
  show ?thesis
    using a withdraw_not_owner [OF a] by simp
qed

subsection \<open>Registration and accumulation\<close>

text \<open>
  C7. For every caller whose recorded contribution is zero, a successful \<open>fund\<close> of an
  amount (which is then at least the minimum) appends the caller to the roster, once, and
  leaves the caller's recorded contribution equal to the amount. In a state reached from
  construction the caller then occurs in the roster exactly once.
\<close>

theorem first_deposit_registers:
  assumes "addressToAmountFunded w sender = 0"
    and "fund c sender amount w = Success w'"
  shows "s_funders w' = s_funders w @ [sender] \<and>
         addressToAmountFunded w' sender = amount \<and>
         MINIMUM_USDC \<le> amount \<and>
         (w = run c txs (deployed t) \<longrightarrow> count_list (s_funders w') sender = 1)"
proof -
  note f = fund_Success [OF assms(2)]
  have "count_list (s_funders w) sender = 0" if "w = run c txs (deployed t)"
    using roster_inv_reachable [of c txs t] assms(1) that
    by (simp add: roster_inv_def count_list_0_iff)
  moreover have "s_funders w' = s_funders w @ [sender]"
    using assms(1) by (simp add: f(2))
  moreover have "addressToAmountFunded w' sender = amount"
    using assms(1) by (simp add: f(3))
  moreover have "MINIMUM_USDC \<le> amount"
    using f(1) by (simp add: not_less)
  ultimately show ?thesis by simp
qed

theorem first_deposit_registers_witness:
  "addressToAmountFunded (run ledger_pausable [Fund alice 5000000] (deployed approved_tokens)) bob
     = 0 \<and>
   failure (fund ledger_pausable bob 7000000
              (run ledger_pausable [Fund alice 5000000] (deployed approved_tokens))) = None \<and>
   s_funders (reached (fund ledger_pausable bob 7000000
                (run ledger_pausable [Fund alice 5000000] (deployed approved_tokens)))) =
     [alice, bob] \<and>
   addressToAmountFunded (reached (fund ledger_pausable bob 7000000
                (run ledger_pausable [Fund alice 5000000] (deployed approved_tokens)))) bob =
     7000000 \<and>
   count_list (s_funders (reached (fund ledger_pausable bob 7000000
                (run ledger_pausable [Fund alice 5000000] (deployed approved_tokens))))) bob = 1"
proof -
  let ?w = "run ledger_pausable [Fund alice 5000000] (deployed approved_tokens)"
  have r: "s_funders ?w = [alice]"
    by (simp add: fund_def Let_def example_defs)
  have a: "addressToAmountFunded ?w bob = 0"
    by (simp add: fund_def Let_def example_defs)
  have b: "failure (fund ledger_pausable bob 7000000 ?w) = None"
    by (simp add: fund_def Let_def example_defs)
  show ?thesis
    using a b r
      first_deposit_registers [OF a succeeded [OF b], of "[Fund alice 5000000]" approved_tokens]
    by (simp add: alice_def bob_def)
qed

subsection \<open>Invariants of the roster\<close>

text \<open>
  C9. In every state reached from construction by a sequence of \<open>fund\<close> and \<open>withdraw\<close>
  calls (of any senders, successful or not, with any activity of the token in between),
  each identity occurs in the roster at most once.
\<close>

theorem roster_has_no_duplicates:
  "distinct (s_funders (run (constructor deployer self token) txs (deployed t)))"
  using roster_inv_reachable [of "constructor deployer self token" txs t]
  by (simp add: roster_inv_def)

text \<open>
  C10. In every state reached from construction by completed \<open>fund\<close> and \<open>withdraw\<close>
  calls, an identity is in the roster if and only if its recorded contribution is not
  zero.
\<close>

theorem roster_membership_iff_nonzero:
  "(d \<in> set (s_funders (run (constructor deployer self token) txs (deployed t)))) =
   (addressToAmountFunded (run (constructor deployer self token) txs (deployed t)) d \<noteq> 0)"
  using roster_inv_reachable [of "constructor deployer self token" txs t]
  by (simp add: roster_inv_def)

subsection \<open>Failure of the final push\<close>

text \<open>
  C1, as amended. If the owner calls \<open>withdraw\<close> and the final \<open>transfer\<close> of the ledger's
  whole balance reports failure, the call fails with \<open>FundMe__TransferFailed\<close>. At the
  point of the revert every entry of a roster member has been zeroed and the roster
  emptied, but the revert discards these writes with the rest of the call: the state
  after the call is the state before it, contribution mapping, roster and token balances
  alike.
\<close>

theorem withdraw_push_failure:
  assumes "balanceOf (usdcToken c) (this c) (usdc w) = Some b"
    and "transfer (usdcToken c) (this c) (i_owner c) b (usdc w) = Some (False, t')"
  shows "failure (withdraw c (i_owner c) w) = Some FundMe__TransferFailed \<and>
         after_call w (withdraw c (i_owner c) w) = w \<and>
         s_funders (reached (withdraw c (i_owner c) w)) = [] \<and>
         (\<forall>x \<in> set (s_funders w).
            addressToAmountFunded (reached (withdraw c (i_owner c) w)) x = 0)"
  using assms by (simp add: withdraw_def Let_def reset_funders_eq)

theorem withdraw_push_failure_witness:
  "failure (withdraw ledger_pausable (i_owner ledger_pausable)
      (run ledger_pausable [Fund alice 5000000, TokenActivity pause] (deployed approved_tokens)))
     = Some FundMe__TransferFailed \<and>
   after_call
      (run ledger_pausable [Fund alice 5000000, TokenActivity pause] (deployed approved_tokens))
      (withdraw ledger_pausable (i_owner ledger_pausable)
        (run ledger_pausable [Fund alice 5000000, TokenActivity pause] (deployed approved_tokens)))
     = run ledger_pausable [Fund alice 5000000, TokenActivity pause] (deployed approved_tokens) \<and>
   addressToAmountFunded (reached (withdraw ledger_pausable (i_owner ledger_pausable)
      (run ledger_pausable [Fund alice 5000000, TokenActivity pause] (deployed approved_tokens))))
      alice = 0"
proof -
  let ?w = "run ledger_pausable [Fund alice 5000000, TokenActivity pause]
              (deployed approved_tokens)"
  have r: "s_funders ?w = [alice]"
    by (simp add: fund_def Let_def pause_def example_defs)
  have a: "balanceOf (usdcToken ledger_pausable) (this ledger_pausable) (usdc ?w) =
             Some 5000000"
    by (simp add: fund_def Let_def pause_def example_defs)
  have b: "transfer (usdcToken ledger_pausable) (this ledger_pausable)
             (i_owner ledger_pausable) 5000000 (usdc ?w) = Some (False, usdc ?w)"
    by (simp add: fund_def Let_def pause_def example_defs)
  show ?thesis
    using withdraw_push_failure [OF a b] r by simp
qed

text \<open>
  C1 as the specification states it fails: after alice has deposited 5 USDC and the token
  has been paused, the owner's \<open>withdraw\<close> fails with \<open>FundMe__TransferFailed\<close>, and the
  ledger is left with alice's entry at 5 USDC and alice in the roster.
\<close>

theorem withdraw_push_failure_keeps_bookkeeping:
  "failure (withdraw ledger_pausable owner0
      (run ledger_pausable [Fund alice 5000000, TokenActivity pause] (deployed approved_tokens)))
     = Some FundMe__TransferFailed \<and>
   \<not> (addressToAmountFunded
        (run ledger_pausable [Fund alice 5000000, TokenActivity pause, Withdraw owner0]
           (deployed approved_tokens)) alice = 0 \<and>
      s_funders
        (run ledger_pausable [Fund alice 5000000, TokenActivity pause, Withdraw owner0]
           (deployed approved_tokens)) = [])"
  by (simp add: fund_def withdraw_def reset_funders_eq Let_def pause_def example_defs)

subsection \<open>The roster across a sweep\<close>

text \<open>
  C2, as amended. An identity that has made a successful deposit stays in the roster
  after every later transaction up to the next successful \<open>withdraw\<close>: deposits,
  withdrawals that fail and activity of the token never remove it. A successful
  \<open>withdraw\<close> empties the roster, that identity included, and leaves its entry at zero.
\<close>

theorem depositor_stays_until_sweep:
  assumes "fund c d amount (run c pre (deployed t)) = Success w1"
  shows "(no_sweep c txs w1 \<longrightarrow> d \<in> set (s_funders (run c txs w1))) \<and>
         (withdraw c sender (run c txs w1) = Success w' \<longrightarrow>
            s_funders w' = [] \<and> addressToAmountFunded w' d = 0)"
proof -
  note f = fund_Success [OF assms]
  have inv0: "roster_inv (run c pre (deployed t))"
    by (rule roster_inv_reachable)
  have "d \<in> set (s_funders w1)"
    using inv0 by (simp add: f(2) roster_inv_def)
  then have stays: "no_sweep c txs w1 \<longrightarrow> d \<in> set (s_funders (run c txs w1))"
    by (simp add: member_run)
  have inv1: "roster_inv (run c txs w1)"
    by (rule roster_inv_run [OF roster_inv_fund [OF inv0 assms]])
  have "s_funders w' = [] \<and> addressToAmountFunded w' d = 0"
    if s: "withdraw c sender (run c txs w1) = Success w'"
  proof -
    have "roster_inv w'"
      by (rule roster_inv_withdraw [OF inv1 s])
    then show ?thesis
      using withdraw_Success(2) [OF s] by (simp add: roster_inv_def)
  qed
  then show ?thesis using stays by simp
qed

theorem depositor_stays_until_sweep_witness:
  "failure (fund ledger_pausable alice 5000000 (run ledger_pausable [] (deployed approved_tokens)))
     = None \<and>
   no_sweep ledger_pausable [Fund bob 7000000, Withdraw alice, Fund alice 1000000]
     (reached (fund ledger_pausable alice 5000000 (deployed approved_tokens))) \<and>
   alice \<in> set (s_funders
     (run ledger_pausable [Fund bob 7000000, Withdraw alice, Fund alice 1000000]
        (reached (fund ledger_pausable alice 5000000 (deployed approved_tokens))))) \<and>
   failure (withdraw ledger_pausable owner0
     (run ledger_pausable [Fund bob 7000000, Withdraw alice, Fund alice 1000000]
        (reached (fund ledger_pausable alice 5000000 (deployed approved_tokens))))) = None \<and>
   s_funders (reached (withdraw ledger_pausable owner0
     (run ledger_pausable [Fund bob 7000000, Withdraw alice, Fund alice 1000000]
        (reached (fund ledger_pausable alice 5000000 (deployed approved_tokens)))))) = []"
proof -
  let ?txs = "[Fund bob 7000000, Withdraw alice, Fund alice 1000000]"
  let ?w1 = "reached (fund ledger_pausable alice 5000000 (deployed approved_tokens))"
  let ?w' = "reached (withdraw ledger_pausable owner0 (run ledger_pausable ?txs ?w1))"
  have a: "failure (fund ledger_pausable alice 5000000
             (run ledger_pausable [] (deployed approved_tokens))) = None"
    by (simp add: fund_def Let_def example_defs)
  have a': "fund ledger_pausable alice 5000000
              (run ledger_pausable [] (deployed approved_tokens)) = Success ?w1"
    using succeeded [OF a] by simp
  have n: "no_sweep ledger_pausable ?txs ?w1"
    by (simp add: fund_def withdraw_def Let_def example_defs)
  have s: "failure (withdraw ledger_pausable owner0 (run ledger_pausable ?txs ?w1)) = None"
    by (simp add: fund_def withdraw_def reset_funders_eq Let_def example_defs)
  note T = depositor_stays_until_sweep [OF a', of ?txs owner0 ?w']
  have m: "alice \<in> set (s_funders (run ledger_pausable ?txs ?w1))"
    using T n by blast
  have e: "s_funders ?w' = []"
    using T succeeded [OF s] by blast
  from a n m s e show ?thesis
    by blast
qed

text \<open>
  C2 as the specification states it fails: alice deposits successfully, the owner
  withdraws successfully, and alice is no longer in the roster.
\<close>

theorem sweep_removes_depositor:
  "failure (fund ledger_pausable alice 5000000 (deployed approved_tokens)) = None \<and>
   failure (withdraw ledger_pausable owner0
              (run ledger_pausable [Fund alice 5000000] (deployed approved_tokens))) = None \<and>
   alice \<notin> set (s_funders
     (run ledger_pausable [Fund alice 5000000, Withdraw owner0] (deployed approved_tokens)))"
  by (simp add: fund_def withdraw_def reset_funders_eq Let_def example_defs)

subsection \<open>The sweep\<close>

text \<open>
  C3. If the roster is \<open>[F1, F2]\<close> with contributions \<open>a1\<close> and \<open>a2\<close> (100 and 250 in the
  specification's wording, 100 USDC and 250 USDC in the run below), the ledger holds
  exactly their sum of the token (nothing was sent to it outside \<open>fund\<close>), and the owner's
  \<open>withdraw\<close> succeeds, then afterwards both contributions are 0, the roster has length 0,
  the ledger's token balance is 0 and the owner's token balance has grown by exactly
  \<open>a1 + a2\<close> (by 350 for 100 and 250). The token is the plain token service; the owner,
  who deployed the ledger, is not the ledger itself.
\<close>

theorem withdraw_sweeps_two_funders:
  assumes "usdcToken c = token_service" and "i_owner c \<noteq> this c"
    and "s_funders w = [F1, F2]"
    and "addressToAmountFunded w F1 = a1" and "addressToAmountFunded w F2 = a2"
    and "unat (balances (usdc w) (this c)) = unat a1 + unat a2"
    and "withdraw c (i_owner c) w = Success w'"
  shows "addressToAmountFunded w' F1 = 0 \<and> addressToAmountFunded w' F2 = 0 \<and>
         length (s_funders w') = 0 \<and>
         balances (usdc w') (this c) = 0 \<and>
         unat (balances (usdc w') (i_owner c)) =
           unat (balances (usdc w) (i_owner c)) + (unat a1 + unat a2)"
proof -
  note s = withdraw_Success [OF assms(7)]
  note t = withdraw_token_effect [OF assms(1,2,7)]
  have "addressToAmountFunded w' F1 = 0" and "addressToAmountFunded w' F2 = 0"
    by (simp_all add: s(3) assms(3))
  moreover have "length (s_funders w') = 0"
    by (simp add: s(2))
  moreover have "unat (balances (usdc w') (i_owner c)) =
                 unat (balances (usdc w) (i_owner c)) + (unat a1 + unat a2)"
    using t(2) by (simp add: assms(6))
  ultimately show ?thesis using t(1) by simp
qed

theorem withdraw_sweeps_two_funders_witness:
  "s_funders (run ledger_plain [Fund alice 100000000, Fund bob 250000000]
               (deployed approved_plain)) = [alice, bob] \<and>
   addressToAmountFunded (run ledger_plain [Fund alice 100000000, Fund bob 250000000]
               (deployed approved_plain)) alice = 100000000 \<and>
   addressToAmountFunded (run ledger_plain [Fund alice 100000000, Fund bob 250000000]
               (deployed approved_plain)) bob = 250000000 \<and>
   balances (usdc (run ledger_plain [Fund alice 100000000, Fund bob 250000000]
               (deployed approved_plain))) (this ledger_plain) = 350000000 \<and>
   failure (withdraw ledger_plain (i_owner ledger_plain)
     (run ledger_plain [Fund alice 100000000, Fund bob 250000000]
        (deployed approved_plain))) = None \<and>
   addressToAmountFunded (reached (withdraw ledger_plain (i_owner ledger_plain)
     (run ledger_plain [Fund alice 100000000, Fund bob 250000000]
        (deployed approved_plain)))) alice = 0 \<and>
   addressToAmountFunded (reached (withdraw ledger_plain (i_owner ledger_plain)
     (run ledger_plain [Fund alice 100000000, Fund bob 250000000]
        (deployed approved_plain)))) bob = 0 \<and>
   length (s_funders (reached (withdraw ledger_plain (i_owner ledger_plain)
     (run ledger_plain [Fund alice 100000000, Fund bob 250000000]
        (deployed approved_plain))))) = 0 \<and>
   balances (usdc (reached (withdraw ledger_plain (i_owner ledger_plain)
     (run ledger_plain [Fund alice 100000000, Fund bob 250000000]
        (deployed approved_plain))))) (this ledger_plain) = 0 \<and>
   unat (balances (usdc (reached (withdraw ledger_plain (i_owner ledger_plain)
     (run ledger_plain [Fund alice 100000000, Fund bob 250000000]
        (deployed approved_plain))))) (i_owner ledger_plain)) = 350000000"
proof -
  let ?w = "run ledger_plain [Fund alice 100000000, Fund bob 250000000]
              (deployed approved_plain)"
  let ?w' = "reached (withdraw ledger_plain (i_owner ledger_plain) ?w)"
  have a: "usdcToken ledger_plain = token_service"
    by (simp add: ledger_plain_def constructor_def)
  have b: "i_owner ledger_plain \<noteq> this ledger_plain"
    by (simp add: ledger_plain_def example_defs)
  have c: "s_funders ?w = [alice, bob]"
    by (simp add: fund_def Let_def ledger_plain_def approved_plain_def example_defs)
  have d: "addressToAmountFunded ?w alice = 100000000"
    by (simp add: fund_def Let_def ledger_plain_def approved_plain_def example_defs)
  have e: "addressToAmountFunded ?w bob = 250000000"
    by (simp add: fund_def Let_def ledger_plain_def approved_plain_def example_defs)
  have f: "balances (usdc ?w) (this ledger_plain) = 350000000"
    by (simp add: fund_def Let_def ledger_plain_def approved_plain_def example_defs)
  have f': "unat (balances (usdc ?w) (this ledger_plain)) =
            unat (100000000 :: uint256) + unat (250000000 :: uint256)"
    unfolding f by simp
  have g: "failure (withdraw ledger_plain (i_owner ledger_plain) ?w) = None"
    by (simp add: fund_def withdraw_def reset_funders_eq Let_def ledger_plain_def
          approved_plain_def example_defs)
  have h: "balances (usdc ?w) (i_owner ledger_plain) = 0"
    by (simp add: fund_def Let_def ledger_plain_def approved_plain_def example_defs)
  note T = withdraw_sweeps_two_funders [OF a b c d e f' succeeded [OF g]]
  have k: "unat (balances (usdc ?w') (i_owner ledger_plain)) = 350000000"
    using T unfolding h by simp
  from c d e f g T k show ?thesis
    by blast
qed

subsection \<open>Two deposits of one identity\<close>

text \<open>
  C8. An identity with no recorded contribution that deposits \<open>a\<close> and later \<open>b\<close>, both
  successfully, with no successful \<open>withdraw\<close> and no further successful deposit of its
  own in between (others may deposit, calls may fail), ends with the recorded
  contribution \<open>a + b\<close>, without wrap-around, and occurs in the roster exactly once.
\<close>

theorem two_deposits_accumulate:
  assumes "addressToAmountFunded (run c pre (deployed t)) d = 0"
    and "fund c d a (run c pre (deployed t)) = Success w1"
    and "idle c d mid w1"
    and "fund c d b (run c mid w1) = Success w2"
  shows "addressToAmountFunded w2 d = a + b \<and>
         unat (addressToAmountFunded w2 d) = unat a + unat b \<and>
         count_list (s_funders w2) d = 1"
proof -
  note f1 = fund_Success [OF assms(2)]
  note f2 = fund_Success [OF assms(4)]
  have "roster_inv (run c pre (deployed t))"
    by (rule roster_inv_reachable)
  then have "count_list (s_funders (run c pre (deployed t))) d = 0"
    using assms(1) by (simp add: roster_inv_def count_list_0_iff)
  then have c1: "count_list (s_funders w1) d = 1"
    using assms(1) by (simp add: f1(2))
  have m1: "addressToAmountFunded w1 d = a"
    using assms(1) by (simp add: f1(3))
  have mid: "addressToAmountFunded (run c mid w1) d = a"
    and cmid: "count_list (s_funders (run c mid w1)) d = 1"
    using idle_run [OF assms(3)] m1 c1 by simp_all
  have "a \<noteq> 0"
    by (rule not_below_minimum [OF f1(1)])
  then have "s_funders w2 = s_funders (run c mid w1)"
    by (simp add: f2(2) mid)
  then have "count_list (s_funders w2) d = 1"
    using cmid by simp
  moreover have "addressToAmountFunded w2 d = a + b"
    by (simp add: f2(3) mid)
  moreover have "unat (a + b) = unat a + unat b"
    using fund_adds_nonzero(2) [OF assms(4)] by (simp add: mid)
  ultimately show ?thesis by simp
qed

theorem two_deposits_accumulate_witness:
  "addressToAmountFunded (run ledger_pausable [] (deployed approved_tokens)) alice = 0 \<and>
   failure (fund ledger_pausable alice 5000000
              (run ledger_pausable [] (deployed approved_tokens))) = None \<and>
   idle ledger_pausable alice [Fund bob 7000000, Withdraw bob]
     (reached (fund ledger_pausable alice 5000000 (deployed approved_tokens))) \<and>
   failure (fund ledger_pausable alice 2000000
     (run ledger_pausable [Fund bob 7000000, Withdraw bob]
        (reached (fund ledger_pausable alice 5000000 (deployed approved_tokens))))) = None \<and>
   addressToAmountFunded (reached (fund ledger_pausable alice 2000000
     (run ledger_pausable [Fund bob 7000000, Withdraw bob]
        (reached (fund ledger_pausable alice 5000000 (deployed approved_tokens)))))) alice
     = 7000000 \<and>
   count_list (s_funders (reached (fund ledger_pausable alice 2000000
     (run ledger_pausable [Fund bob 7000000, Withdraw bob]
        (reached (fund ledger_pausable alice 5000000 (deployed approved_tokens))))))) alice = 1"
proof -
  let ?mid = "[Fund bob 7000000, Withdraw bob]"
  let ?w1 = "reached (fund ledger_pausable alice 5000000 (deployed approved_tokens))"
  let ?w2 = "reached (fund ledger_pausable alice 2000000 (run ledger_pausable ?mid ?w1))"
  have z: "addressToAmountFunded (run ledger_pausable [] (deployed approved_tokens)) alice = 0"
    by (simp add: deployed_def)
  have a: "failure (fund ledger_pausable alice 5000000
             (run ledger_pausable [] (deployed approved_tokens))) = None"
    by (simp add: fund_def Let_def example_defs)
  have a': "fund ledger_pausable alice 5000000
              (run ledger_pausable [] (deployed approved_tokens)) = Success ?w1"
    using succeeded [OF a] by simp
  have i: "idle ledger_pausable alice ?mid ?w1"
    by (simp add: fund_def withdraw_def Let_def example_defs)
  have b: "failure (fund ledger_pausable alice 2000000 (run ledger_pausable ?mid ?w1)) = None"
    by (simp add: fund_def withdraw_def Let_def example_defs)
  note T = two_deposits_accumulate [OF z a' i succeeded [OF b]]
  have m: "addressToAmountFunded ?w2 alice = 7000000"
    using T by simp
  have c: "count_list (s_funders ?w2) alice = 1"
    using T by simp
  from z a i b m c show ?thesis
    by blast
qed

end
